theory Spec2Isabelle
  imports Complex_Main "HOL-Library.Multiset" "HOL-Library.List_Lexorder"
begin

section \<open>GitHub RSS aggregator: fetch pipeline, cache and auto-refresh\<close>

text \<open>
  A shallow embedding of \<^verbatim>\<open>github_rss_aggregator.py\<close>. Python strings are sequences of
  code points: they are lists of naturals here, so that \<^verbatim>\<open>len\<close> counts code points and
  string comparison is the lexicographic order on code points.
\<close>

type_synonym ustr = "nat list"

definition u :: "string \<Rightarrow> ustr" where
  "u s = map of_char s"

subsection \<open>Constants\<close>

definition MAX_ENTRIES :: nat where "MAX_ENTRIES = 100"
definition REQUEST_TIMEOUT :: nat where "REQUEST_TIMEOUT = 10"
definition MAX_WORKERS :: nat where "MAX_WORKERS = 20"

subsection \<open>What the outside world answers to one call of \<^verbatim>\<open>fetch_repo_releases\<close>\<close>

text \<open>
  An entry of the parsed feed is a dictionary; the keys the code reads are the fields, a
  missing key is \<open>None\<close>. \<open>author_detail\<close> is itself a dictionary.
\<close>

record feed_entry =
  fe_updated :: "ustr option"
  fe_published :: "ustr option"
  fe_author_detail :: "(ustr \<times> ustr) list option"
  fe_author :: "ustr option"
  fe_summary :: "ustr option"
  fe_description :: "ustr option"
  fe_title :: "ustr option"
  fe_link :: "ustr option"
  fe_id :: "ustr option"

record feed =
  bozo :: bool
  entries :: "feed_entry list option"

datatype exn = Timeout | ConnectionError | RequestException | OtherException

text \<open>
  A job is one repository of \<^verbatim>\<open>load_repos()\<close> together with what its fetch meets: the
  token read by \<^verbatim>\<open>load_github_token()\<close>, the answer of \<^verbatim>\<open>requests.head\<close> (an exception or
  a status code), the answer of \<^verbatim>\<open>feedparser.parse\<close>, the clock as an ISO string, and the
  moment its future completes (which fixes its place in \<^verbatim>\<open>as_completed\<close>).
\<close>

record job =
  repo :: ustr
  github_token :: ustr
  head_response :: "exn + nat"
  parsed :: "exn + feed"
  now_iso :: ustr
  finished_at :: nat

record entry_data =
  title :: ustr
  link :: ustr
  updated :: ustr
  author :: ustr
  summary :: ustr
  e_repo :: ustr
  e_id :: ustr

record http_request =
  rq_method :: string
  rq_url :: ustr
  rq_headers :: "(ustr \<times> ustr) list option"
  rq_timeout :: "nat option"

subsection \<open>\<^verbatim>\<open>fetch_repo_releases\<close>\<close>

definition dict_get :: "'a option \<Rightarrow> 'a \<Rightarrow> 'a" where
  "dict_get v d = (case v of Some x \<Rightarrow> x | None \<Rightarrow> d)"

fun split_on :: "nat \<Rightarrow> ustr \<Rightarrow> ustr list" where
  "split_on c [] = [[]]"
| "split_on c (x # xs) =
     (if x = c then [] # split_on c xs
      else (case split_on c xs of [] \<Rightarrow> [[x]] | p # ps \<Rightarrow> (x # p) # ps))"

definition slash :: nat where "slash = 47"

definition releases_atom_url :: "ustr \<Rightarrow> ustr" where
  "releases_atom_url r = u ''https://github.com/'' @ r @ u ''/releases.atom''"

definition request_headers :: "ustr \<Rightarrow> (ustr \<times> ustr) list" where
  "request_headers tok =
     [(u ''User-Agent'', u ''GitHub-RSS-Aggregator/1.0''),
      (u ''Accept'', u ''application/atom+xml, application/xml, text/xml'')]
     @ (if tok \<noteq> [] then [(u ''Authorization'', u ''token '' @ tok)] else [])"

definition head_request :: "job \<Rightarrow> http_request" where
  "head_request j =
     \<lparr>rq_method = ''HEAD'', rq_url = releases_atom_url (repo j),
      rq_headers = Some (request_headers (github_token j)),
      rq_timeout = Some REQUEST_TIMEOUT\<rparr>"

definition parse_request :: "job \<Rightarrow> http_request" where
  "parse_request j =
     \<lparr>rq_method = ''GET'', rq_url = releases_atom_url (repo j),
      rq_headers = None, rq_timeout = None\<rparr>"

definition updated_time_of :: "job \<Rightarrow> feed_entry \<Rightarrow> ustr" where
  "updated_time_of j e =
     (let updated_time = dict_get (fe_updated e) (dict_get (fe_published e) [])
      in if updated_time = [] then now_iso j else updated_time)"

definition author_name_of :: "feed_entry \<Rightarrow> ustr" where
  "author_name_of e =
     (case fe_author_detail e of
        Some (kv # d) \<Rightarrow> dict_get (map_of (kv # d) (u ''name'')) []
      | _ \<Rightarrow> (case fe_author e of Some a \<Rightarrow> a | None \<Rightarrow> []))"

definition raw_summary :: "feed_entry \<Rightarrow> ustr" where
  "raw_summary e = dict_get (fe_summary e) (dict_get (fe_description e) [])"

definition summary_of :: "(ustr \<Rightarrow> ustr) \<Rightarrow> feed_entry \<Rightarrow> ustr" where
  "summary_of unescape e =
     (let summary = raw_summary e
      in if summary \<noteq> [] then
           (let summary = unescape summary
            in if length summary > 500 then take 500 summary @ u ''...'' else summary)
         else summary)"

definition repo_name_of :: "ustr \<Rightarrow> ustr" where
  "repo_name_of r = (if slash \<in> set r then last (split_on slash r) else r)"

definition default_title :: ustr where
  "default_title = [26032, 21457, 24067]"

definition make_entry :: "(ustr \<Rightarrow> ustr) \<Rightarrow> job \<Rightarrow> feed_entry \<Rightarrow> entry_data" where
  "make_entry unescape j e =
     \<lparr>title = repo_name_of (repo j) @ u '' - '' @ dict_get (fe_title e) default_title,
      link = dict_get (fe_link e) (u ''https://github.com/'' @ repo j @ u ''/releases''),
      updated = updated_time_of j e,
      author = author_name_of e,
      summary = summary_of unescape e,
      e_repo = repo j,
      e_id = dict_get (fe_id e) (dict_get (fe_link e) [])\<rparr>"

text \<open>
  The body of the \<^verbatim>\<open>try\<close> block: the requests it issued, and either the exception that left
  the block or the list it returned (the value of \<^verbatim>\<open>entries\<close>).
\<close>

definition fetch_repo_try :: "(ustr \<Rightarrow> ustr) \<Rightarrow> job \<Rightarrow> http_request list \<times> (exn + entry_data list)" where
  "fetch_repo_try unescape j =
     (case head_response j of
        Inl x \<Rightarrow> ([head_request j], Inl x)
      | Inr status \<Rightarrow>
          if status = 404 then ([head_request j], Inr [])
          else if status \<noteq> 200 then ([head_request j], Inr [])
          else (case parsed j of
                  Inl x \<Rightarrow> ([head_request j, parse_request j], Inl x)
                | Inr f \<Rightarrow>
                    (case entries f of
                       None \<Rightarrow> ([head_request j, parse_request j], Inr [])
                     | Some [] \<Rightarrow> ([head_request j, parse_request j], Inr [])
                     | Some (e # _) \<Rightarrow>
                         ([head_request j, parse_request j], Inr [make_entry unescape j e]))))"

text \<open>
  The four \<^verbatim>\<open>except\<close> clauses log and fall through to \<^verbatim>\<open>return entries\<close>; \<^verbatim>\<open>entries\<close> is
  still empty whenever an exception can have been raised. The result is a sum because the
  caller reads it through \<^verbatim>\<open>future.result()\<close>, which re-raises.
\<close>

definition fetch_repo_run :: "(ustr \<Rightarrow> ustr) \<Rightarrow> job \<Rightarrow> http_request list \<times> (exn + entry_data list)" where
  "fetch_repo_run unescape j =
     (case fetch_repo_try unescape j of
        (rqs, Inl Timeout) \<Rightarrow> (rqs, Inr [])
      | (rqs, Inl ConnectionError) \<Rightarrow> (rqs, Inr [])
      | (rqs, Inl RequestException) \<Rightarrow> (rqs, Inr [])
      | (rqs, Inl OtherException) \<Rightarrow> (rqs, Inr [])
      | (rqs, Inr es) \<Rightarrow> (rqs, Inr es))"

definition fetch_repo_releases :: "(ustr \<Rightarrow> ustr) \<Rightarrow> job \<Rightarrow> exn + entry_data list" where
  "fetch_repo_releases unescape j = snd (fetch_repo_run unescape j)"

definition fetch_repo_requests :: "(ustr \<Rightarrow> ustr) \<Rightarrow> job \<Rightarrow> http_request list" where
  "fetch_repo_requests unescape j = fst (fetch_repo_run unescape j)"

subsection \<open>\<^verbatim>\<open>fetch_all_releases\<close>\<close>

text \<open>
  \<^verbatim>\<open>as_completed\<close> yields the futures in the order in which they complete; futures that
  complete together come in submission order here. The pool of \<^verbatim>\<open>MAX_WORKERS\<close> threads
  decides when a future completes and nothing else.
\<close>

definition as_completed :: "job list \<Rightarrow> job list" where
  "as_completed js = sort_key finished_at js"

text \<open>The loop over the completed futures, with its two accumulators.\<close>

fun collect :: "(ustr \<Rightarrow> ustr) \<Rightarrow> job list \<Rightarrow> entry_data list \<times> nat \<Rightarrow> entry_data list \<times> nat" where
  "collect unescape [] acc = acc"
| "collect unescape (j # js) (all_entries, successful_repos) =
     (case fetch_repo_releases unescape j of
        Inr es \<Rightarrow>
          if es \<noteq> [] then collect unescape js (all_entries @ es, successful_repos + 1)
          else collect unescape js (all_entries, successful_repos)
      | Inl x \<Rightarrow> collect unescape js (all_entries, successful_repos))"

text \<open>
  \<^verbatim>\<open>list.sort(key=..., reverse=True)\<close> is stable: it reverses, sorts ascending and reverses
  again.
\<close>

definition sort_reverse :: "entry_data list \<Rightarrow> entry_data list" where
  "sort_reverse xs = rev (sort_key updated (rev xs))"

definition fetch_all_releases :: "(ustr \<Rightarrow> ustr) \<Rightarrow> job list \<Rightarrow> entry_data list" where
  "fetch_all_releases unescape repos =
     (if repos = [] then []
      else sort_reverse (fst (collect unescape (as_completed repos) ([], 0))))"

subsection \<open>Outcomes of a fetch, read off the job\<close>

text \<open>
  The latest release a job can deliver: the first entry of the feed, when the existence
  check answered 200 and the parser returned a feed with at least one entry.
\<close>

definition released :: "job \<Rightarrow> feed_entry option" where
  "released j =
     (case head_response j of
        Inr status \<Rightarrow>
          if status = 200 then
            (case parsed j of
               Inr f \<Rightarrow> (case entries f of Some (e # es) \<Rightarrow> Some e | _ \<Rightarrow> None)
             | Inl x \<Rightarrow> None)
          else None
      | Inl x \<Rightarrow> None)"

datatype fetch_error = NotFound | Unreachable | Malformed | TimedOut

text \<open>
  The failures of a fetch, by the branch of \<^verbatim>\<open>fetch_repo_releases\<close> that handles them:
  status 404; any other status than 200, a connection error or another request exception;
  a timeout; any other exception. A feed without entries is no failure (the source has no
  releases), and neither is a feed the parser flags as \<^verbatim>\<open>bozo\<close> but returns entries for.
\<close>

definition kind_of_exn :: "exn \<Rightarrow> fetch_error" where
  "kind_of_exn x =
     (case x of Timeout \<Rightarrow> TimedOut | ConnectionError \<Rightarrow> Unreachable
      | RequestException \<Rightarrow> Unreachable | OtherException \<Rightarrow> Malformed)"

definition fetch_failure :: "job \<Rightarrow> fetch_error option" where
  "fetch_failure j =
     (case head_response j of
        Inl x \<Rightarrow> Some (kind_of_exn x)
      | Inr status \<Rightarrow>
          if status = 404 then Some NotFound
          else if status \<noteq> 200 then Some Unreachable
          else (case parsed j of Inl x \<Rightarrow> Some (kind_of_exn x) | Inr f \<Rightarrow> None))"

subsection \<open>The cache, the settings and the auto-refresh flag\<close>

text \<open>
  The module's globals. \<open>cache_data = None\<close> is Python's \<^verbatim>\<open>None\<close>. The workers are the
  threads created by \<^verbatim>\<open>start_auto_refresh\<close>, each at its place in \<^verbatim>\<open>auto_refresh_worker\<close>:
  created and not yet running, inside \<^verbatim>\<open>time.sleep\<close> until a wake-up time, or returned.
  \<open>fetch_calls\<close> counts the calls of \<^verbatim>\<open>fetch_all_releases\<close>; the program has no such
  variable, it is there to state how often the sources are fetched.
\<close>

record settings_dict =
  cache_duration :: int
  auto_refresh_interval :: int
  startup_refresh :: bool

datatype worker = Created | Sleeping real | Exited

record 'x app_state =
  cache_data :: "'x option"
  cache_timestamp :: real
  settings :: settings_dict
  auto_refresh_running :: bool
  refresh_thread :: "nat option"
  workers :: "worker list"
  fetch_calls :: nat

definition DEFAULT_CACHE_DURATION :: int where "DEFAULT_CACHE_DURATION = 300"
definition DEFAULT_AUTO_REFRESH_INTERVAL :: int where "DEFAULT_AUTO_REFRESH_INTERVAL = 1800"
definition DEFAULT_STARTUP_REFRESH :: bool where "DEFAULT_STARTUP_REFRESH = True"

definition initial_state :: "'x app_state" where
  "initial_state =
     \<lparr>cache_data = None, cache_timestamp = 0,
      settings = \<lparr>cache_duration = DEFAULT_CACHE_DURATION,
                  auto_refresh_interval = DEFAULT_AUTO_REFRESH_INTERVAL,
                  startup_refresh = DEFAULT_STARTUP_REFRESH\<rparr>,
      auto_refresh_running = False, refresh_thread = None, workers = [], fetch_calls = 0\<rparr>"

text \<open>
  What one rebuild meets: the library's \<^verbatim>\<open>html.unescape\<close>, the repositories with their
  network answers, and \<^verbatim>\<open>create_rss_feed\<close>, which serialises the entries (with the clock
  and the settings of that moment) and is taken as given.
\<close>

record 'x world =
  html_unescape :: "ustr \<Rightarrow> ustr"
  jobs :: "job list"
  create_rss_feed :: "entry_data list \<Rightarrow> 'x"

text \<open>The two statements every rebuild starts with, and the state after them.\<close>

definition rebuild :: "'x world \<Rightarrow> 'x app_state \<Rightarrow> 'x \<times> 'x app_state" where
  "rebuild w st =
     (let entries = fetch_all_releases (html_unescape w) (jobs w);
          rss_xml = create_rss_feed w entries
      in (rss_xml, st\<lparr>fetch_calls := fetch_calls st + 1\<rparr>))"

text \<open>The two blocks under \<^verbatim>\<open>with cache['lock']\<close> that clear and that fill the cache.\<close>

definition invalidate :: "'x app_state \<Rightarrow> 'x app_state" where
  "invalidate st = st\<lparr>cache_data := None, cache_timestamp := 0\<rparr>"

definition store :: "'x \<Rightarrow> real \<Rightarrow> 'x app_state \<Rightarrow> 'x app_state" where
  "store rss_xml t st = st\<lparr>cache_data := Some rss_xml, cache_timestamp := t\<rparr>"

text \<open>
  \<^verbatim>\<open>get_cached_data\<close> runs as a whole under the lock; \<open>current_time\<close> is the clock it reads
  after it has the lock.
\<close>

definition cache_hit :: "real \<Rightarrow> 'x app_state \<Rightarrow> bool" where
  "cache_hit current_time st =
     (cache_data st \<noteq> None \<and>
      current_time - cache_timestamp st < real_of_int (cache_duration (settings st)))"

definition get_cached_data :: "'x world \<Rightarrow> real \<Rightarrow> 'x app_state \<Rightarrow> 'x \<times> 'x app_state" where
  "get_cached_data w current_time st =
     (case cache_data st of
        Some data \<Rightarrow>
          if current_time - cache_timestamp st < real_of_int (cache_duration (settings st))
          then (data, st)
          else (case rebuild w st of (rss_xml, st') \<Rightarrow> (rss_xml, store rss_xml current_time st'))
      | None \<Rightarrow>
          (case rebuild w st of (rss_xml, st') \<Rightarrow> (rss_xml, store rss_xml current_time st')))"

text \<open>
  \<^verbatim>\<open>refresh\<close>, \<^verbatim>\<open>startup_cache_warmup\<close> and the body of the auto-refresh tick store the
  clock read after the rebuild, \<open>now\<close>.
\<close>

definition refresh :: "'x world \<Rightarrow> real \<Rightarrow> 'x app_state \<Rightarrow> 'x app_state" where
  "refresh w now st =
     (case rebuild w (invalidate st) of (rss_xml, st') \<Rightarrow> store rss_xml now st')"

definition auto_refresh_tick :: "'x world \<Rightarrow> real \<Rightarrow> 'x app_state \<Rightarrow> 'x app_state" where
  "auto_refresh_tick w now st =
     (case rebuild w (invalidate st) of (rss_xml, st') \<Rightarrow> store rss_xml now st')"

definition startup_cache_warmup :: "bool \<Rightarrow> 'x world \<Rightarrow> real \<Rightarrow> 'x app_state \<Rightarrow> 'x app_state" where
  "startup_cache_warmup STARTUP_REFRESH w now st =
     (if \<not> (STARTUP_REFRESH \<and> startup_refresh (settings st)) then st
      else (case rebuild w st of (rss_xml, st') \<Rightarrow> store rss_xml now st'))"

subsection \<open>The auto-refresh threads\<close>

definition start_auto_refresh :: "'x app_state \<Rightarrow> nat \<times> 'x app_state" where
  "start_auto_refresh st = (length (workers st), st\<lparr>workers := workers st @ [Created]\<rparr>)"

text \<open>
  \<^verbatim>\<open>restart_auto_refresh\<close>: the flag is cleared if it was set (the code then sleeps for one
  second when the old thread is alive, which changes no variable), then a new thread is
  started and becomes \<^verbatim>\<open>refresh_thread\<close>.
\<close>

definition restart_auto_refresh :: "'x app_state \<Rightarrow> 'x app_state" where
  "restart_auto_refresh st =
     (let st1 = (if auto_refresh_running st then st\<lparr>auto_refresh_running := False\<rparr> else st)
      in case start_auto_refresh st1 of (tid, st2) \<Rightarrow> st2\<lparr>refresh_thread := Some tid\<rparr>)"

definition stop_auto_refresh :: "'x app_state \<Rightarrow> 'x app_state" where
  "stop_auto_refresh st = st\<lparr>auto_refresh_running := False\<rparr>"

text \<open>
  A thread runs \<^verbatim>\<open>auto_refresh_worker\<close>. \<open>worker_begin\<close> is its start at time \<open>now\<close>: it sets
  the flag, passes the loop test and goes to sleep. \<open>worker_wake\<close> is one round of the loop
  for a thread whose sleep is over: the rebuild if the flag is set (\<open>now\<close> is the clock after
  it), then the loop test.
\<close>

definition next_wait :: "real \<Rightarrow> 'x app_state \<Rightarrow> worker" where
  "next_wait now st =
     (if auto_refresh_running st
      then Sleeping (now + real_of_int (auto_refresh_interval (settings st)))
      else Exited)"

definition worker_begin :: "nat \<Rightarrow> real \<Rightarrow> 'x app_state \<Rightarrow> 'x app_state" where
  "worker_begin tid now st =
     (if tid < length (workers st) \<and> workers st ! tid = Created then
        (let st1 = st\<lparr>auto_refresh_running := True\<rparr>
         in st1\<lparr>workers := (workers st1)[tid := next_wait now st1]\<rparr>)
      else st)"

definition worker_wake :: "'x world \<Rightarrow> nat \<Rightarrow> real \<Rightarrow> 'x app_state \<Rightarrow> 'x app_state" where
  "worker_wake w tid now st =
     (if tid < length (workers st) then
        (case workers st ! tid of
           Sleeping t \<Rightarrow>
             if t \<le> now then
               (let st1 = (if auto_refresh_running st then auto_refresh_tick w now st else st)
                in st1\<lparr>workers := (workers st1)[tid := next_wait now st1]\<rparr>)
             else st
         | _ \<Rightarrow> st)
      else st)"

text \<open>
  \<^verbatim>\<open>save_settings_route\<close>, with the form already parsed to numbers; \<open>saved\<close> is what
  \<^verbatim>\<open>save_settings()\<close> returns. The result is the HTTP status and the new state.
\<close>

definition save_settings_route ::
    "settings_dict \<Rightarrow> bool \<Rightarrow> 'x world \<Rightarrow> real \<Rightarrow> 'x app_state \<Rightarrow> nat \<times> 'x app_state" where
  "save_settings_route form saved w now st =
     (if \<not> (30 \<le> cache_duration form \<and> cache_duration form \<le> 3600) then (400, st)
      else if \<not> (60 \<le> auto_refresh_interval form \<and> auto_refresh_interval form \<le> 86400)
      then (400, st)
      else
        (let old_auto_refresh_interval = auto_refresh_interval (settings st);
             st1 = st\<lparr>settings := \<lparr>cache_duration = cache_duration form,
                       auto_refresh_interval = auto_refresh_interval form,
                       startup_refresh = startup_refresh form\<rparr>\<rparr>
         in if saved then
              (let st2 = (case rebuild w (invalidate st1) of
                            (rss_xml, st') \<Rightarrow> store rss_xml now st')
               in if old_auto_refresh_interval \<noteq> auto_refresh_interval form
                  then (200, restart_auto_refresh st2) else (200, st2))
            else (500, st1)))"

text \<open>
  The main program after \<^verbatim>\<open>load_settings()\<close>: the warm-up, then the first auto-refresh
  thread.
\<close>

definition main :: "bool \<Rightarrow> 'x world \<Rightarrow> real \<Rightarrow> 'x app_state \<Rightarrow> 'x app_state" where
  "main STARTUP_REFRESH w now st =
     (case start_auto_refresh (startup_cache_warmup STARTUP_REFRESH w now st) of
        (tid, st') \<Rightarrow> st'\<lparr>refresh_thread := Some tid\<rparr>)"

text \<open>Calls of \<^verbatim>\<open>get_cached_data\<close> one after another, in the order they take the lock.\<close>

fun get_many :: "('x world \<times> real) list \<Rightarrow> 'x app_state \<Rightarrow> 'x list \<times> 'x app_state" where
  "get_many [] st = ([], st)"
| "get_many ((w, t) # calls) st =
     (case get_cached_data w t st of
        (r, st1) \<Rightarrow> (case get_many calls st1 of (rs, st2) \<Rightarrow> (r # rs, st2)))"

subsection \<open>Concurrent callers of \<^verbatim>\<open>get_cached_data\<close>\<close>

text \<open>
  Several threads call \<^verbatim>\<open>get_cached_data\<close>. A caller has arrived at the
  \<^verbatim>\<open>with cache['lock']\<close> statement, or holds the lock and rebuilds (with the clock it read
  on entry), or has returned a value. Two things can happen. A caller that has arrived
  takes the lock when it is free and reads the clock: on a hit it returns the cached data
  and releases the lock at once, otherwise it keeps the lock and starts the rebuild. A
  rebuilding caller completes: it stores the feed with the clock it read on entry, releases
  the lock and returns. While the lock is held no other caller can enter.
\<close>

datatype 'x caller = Arrived | Rebuilding real | Returned 'x

record 'x lock_state =
  app :: "'x app_state"
  lock_held :: bool
  callers :: "'x caller list"

datatype 'x event = Acquire nat real | Complete nat "'x world"

definition acquire :: "nat \<Rightarrow> real \<Rightarrow> 'x lock_state \<Rightarrow> 'x lock_state option" where
  "acquire i current_time c =
     (if i < length (callers c) \<and> callers c ! i = Arrived \<and> \<not> lock_held c then
        (case cache_data (app c) of
           Some data \<Rightarrow>
             if current_time - cache_timestamp (app c)
                  < real_of_int (cache_duration (settings (app c)))
             then Some (c\<lparr>callers := (callers c)[i := Returned data]\<rparr>)
             else Some (c\<lparr>lock_held := True, callers := (callers c)[i := Rebuilding current_time]\<rparr>)
         | None \<Rightarrow>
             Some (c\<lparr>lock_held := True, callers := (callers c)[i := Rebuilding current_time]\<rparr>))
      else None)"

definition complete :: "nat \<Rightarrow> 'x world \<Rightarrow> 'x lock_state \<Rightarrow> 'x lock_state option" where
  "complete i w c =
     (if i < length (callers c) then
        (case callers c ! i of
           Rebuilding current_time \<Rightarrow>
             (case rebuild w (app c) of
                (rss_xml, st') \<Rightarrow>
                  Some (c\<lparr>app := store rss_xml current_time st', lock_held := False,
                          callers := (callers c)[i := Returned rss_xml]\<rparr>))
         | _ \<Rightarrow> None)
      else None)"

fun run_callers :: "'x event list \<Rightarrow> 'x lock_state \<Rightarrow> 'x lock_state option" where
  "run_callers [] c = Some c"
| "run_callers (Acquire i t # evs) c =
     (case acquire i t c of Some c' \<Rightarrow> run_callers evs c' | None \<Rightarrow> None)"
| "run_callers (Complete i w # evs) c =
     (case complete i w c of Some c' \<Rightarrow> run_callers evs c' | None \<Rightarrow> None)"

fun acquire_times :: "'x event list \<Rightarrow> real list" where
  "acquire_times [] = []"
| "acquire_times (Acquire i t # evs) = t # acquire_times evs"
| "acquire_times (Complete i w # evs) = acquire_times evs"

definition arrive :: "nat \<Rightarrow> 'x app_state \<Rightarrow> 'x lock_state" where
  "arrive n st = \<lparr>app = st, lock_held = False, callers = replicate n Arrived\<rparr>"

subsection \<open>Properties stated over the model\<close>

text \<open>What one job adds to the merged list: its latest release as an item, or nothing.\<close>

definition contribution :: "(ustr \<Rightarrow> ustr) \<Rightarrow> job \<Rightarrow> entry_data list" where
  "contribution un j = (case released j of Some e \<Rightarrow> [make_entry un j e] | None \<Rightarrow> [])"

text \<open>The cache holds a result exactly when its timestamp is positive.\<close>

definition cache_inv :: "'x app_state \<Rightarrow> bool" where
  "cache_inv st = ((cache_data st \<noteq> None) = (0 < cache_timestamp st))"

text \<open>
  Phases of the callers' run: a caller \<open>i\<close> rebuilds since time \<open>t1\<close> while all others still
  wait; the cache serves the result \<open>r\<close> built at \<open>t1\<close> and every caller has either not entered
  yet or returned \<open>r\<close>.
\<close>

definition returned :: "'x caller \<Rightarrow> bool" where
  "returned cl = (case cl of Returned r \<Rightarrow> True | _ \<Rightarrow> False)"

definition served :: "'x \<Rightarrow> real \<Rightarrow> 'x lock_state \<Rightarrow> bool" where
  "served r t1 c =
     (cache_data (app c) = Some r \<and> cache_timestamp (app c) = t1 \<and> \<not> lock_held c \<and>
      list_all (\<lambda>cl. cl = Arrived \<or> cl = Returned r) (callers c))"

definition rebuilding :: "nat \<Rightarrow> real \<Rightarrow> 'x lock_state \<Rightarrow> bool" where
  "rebuilding i t1 c =
     (lock_held c \<and> i < length (callers c) \<and> callers c ! i = Rebuilding t1 \<and>
      list_all (\<lambda>cl. cl = Arrived \<or> cl = Rebuilding t1) (callers c) \<and>
      (\<forall>j < length (callers c). j \<noteq> i \<longrightarrow> callers c ! j = Arrived))"

subsection \<open>Concrete inputs\<close>

text \<open>
  Repository \<^verbatim>\<open>a/x\<close> answers with one release whose summary has 501 characters; repository
  \<^verbatim>\<open>a/y\<close> times out and completes first.
\<close>

definition example_entry :: feed_entry where
  "example_entry =
     \<lparr>fe_updated = Some (u ''2024-05-01T10:00:00Z''), fe_published = None,
      fe_author_detail = Some [(u ''name'', u ''alice'')], fe_author = Some (u ''alice''),
      fe_summary = Some (replicate 501 97), fe_description = None,
      fe_title = Some (u ''v1.0''),
      fe_link = Some (u ''https://github.com/a/x/releases/tag/v1.0''),
      fe_id = Some (u ''tag:github.com,2008:Repository/1/v1.0'')\<rparr>"

definition example_job_ok :: job where
  "example_job_ok =
     \<lparr>repo = u ''a/x'', github_token = [], head_response = Inr 200,
      parsed = Inr \<lparr>bozo = False, entries = Some [example_entry]\<rparr>,
      now_iso = u ''2024-06-01T00:00:00+00:00'', finished_at = 2\<rparr>"

definition example_job_timeout :: job where
  "example_job_timeout =
     \<lparr>repo = u ''a/y'', github_token = [], head_response = Inl Timeout,
      parsed = Inl Timeout,
      now_iso = u ''2024-06-01T00:00:00+00:00'', finished_at = 1\<rparr>"

definition example_world :: "entry_data list world" where
  "example_world =
     \<lparr>html_unescape = (\<lambda>s. s), jobs = [example_job_ok, example_job_timeout],
      create_rss_feed = (\<lambda>es. es)\<rparr>"

text \<open>The cache holding the feed of the empty list, built at time 1000.\<close>

definition cached_state :: "entry_data list app_state" where
  "cached_state = store [] 1000 initial_state"

definition failing_world :: "entry_data list world" where
  "failing_world =
     \<lparr>html_unescape = (\<lambda>s. s), jobs = [example_job_timeout],
      create_rss_feed = (\<lambda>es. es)\<rparr>"

text \<open>
  A run of the scheduler: the program starts at time 0 with the default interval of 1800
  seconds; at time 10 the settings are saved with an interval of 600 seconds, which
  restarts the auto-refresh; the new thread starts at time 11 and ticks at 611 and 1211;
  at time 1800 the sleep of the first thread ends.
\<close>

definition run_started :: "entry_data list app_state" where
  "run_started = worker_begin 0 0 (main False example_world 0 initial_state)"

definition run_restarted :: "entry_data list app_state" where
  "run_restarted =
     worker_begin 1 11
       (snd (save_settings_route
               \<lparr>cache_duration = 300, auto_refresh_interval = 600, startup_refresh = True\<rparr>
               True example_world 10 run_started))"

definition run_before_stale_tick :: "entry_data list app_state" where
  "run_before_stale_tick =
     worker_wake example_world 1 1211 (worker_wake example_world 1 611 run_restarted)"

definition run_after_stale_tick :: "entry_data list app_state" where
  "run_after_stale_tick = worker_wake example_world 0 1800 run_before_stale_tick"

section \<open>The fetch pipeline\<close>

lemma fetch_repo_releases_eq:
  "fetch_repo_releases un j = Inr (contribution un j)"
  by (simp add: fetch_repo_releases_def fetch_repo_run_def fetch_repo_try_def released_def
      contribution_def split: sum.splits exn.splits option.splits list.splits)

lemma collect_eq:
  "collect un js acc =
     (fst acc @ concat (map (contribution un) js),
      snd acc + length (filter (\<lambda>j. contribution un j \<noteq> []) js))"
  by (induction js arbitrary: acc) (auto simp: fetch_repo_releases_eq)

lemma sort_reverse_sorted: "sorted_wrt (\<lambda>a b. updated b \<le> updated a) (sort_reverse xs)"
proof -
  have "sorted (map updated (sort_key updated (rev xs)))" by simp
  then have "sorted_wrt (\<lambda>a b. updated a \<le> updated b) (sort_key updated (rev xs))"
    by (simp add: sorted_map)
  then show ?thesis
    unfolding sort_reverse_def by (simp add: sorted_wrt_rev)
qed

lemma mset_sort_reverse: "mset (sort_reverse xs) = mset xs"
  by (simp add: sort_reverse_def)

lemma fetch_all_releases_eq:
  "fetch_all_releases un js = sort_reverse (concat (map (contribution un) (as_completed js)))"
  by (simp add: fetch_all_releases_def collect_eq as_completed_def sort_reverse_def)

lemma mset_concat_map:
  assumes eq: "mset xs = mset ys"
  shows "mset (concat (map f xs)) = mset (concat (map f ys))"
proof -
  have "mset (concat (map f zs)) = (\<Sum>z\<in>#mset zs. mset (f z))" for zs
    by (induction zs) simp_all
  then show ?thesis by (simp add: eq)
qed

lemma mset_fetch_all_releases:
  "mset (fetch_all_releases un js) = mset (concat (map (contribution un) js))"
  unfolding fetch_all_releases_eq mset_sort_reverse as_completed_def
  by (rule mset_concat_map) simp

lemma map_e_repo_contribution:
  "map e_repo (concat (map (contribution un) js))
     = map repo (filter (\<lambda>j. released j \<noteq> None) js)"
  by (induction js) (auto simp: contribution_def make_entry_def)

lemma length_contribution: "length (contribution un j) = (if released j = None then 0 else 1)"
  by (simp add: contribution_def split: option.splits)

lemma failure_no_release: "fetch_failure j \<noteq> None \<Longrightarrow> released j = None"
  by (auto simp: fetch_failure_def released_def split: sum.splits if_splits)

lemma failure_no_contribution: "fetch_failure j = Some k \<Longrightarrow> contribution un j = []"
  using failure_no_release [of j] by (simp add: contribution_def)

lemma concat_filter_contribution:
  "concat (map (contribution un) (filter (\<lambda>j. fetch_failure j = None) js))
     = concat (map (contribution un) js)"
  by (induction js) (auto simp: failure_no_contribution)

lemma fetch_all_releases_empty:
  assumes "js = [] \<or> (\<forall>j \<in> set js. released j = None)"
  shows "fetch_all_releases un js = []"
proof -
  from assms have "\<forall>j \<in> set (as_completed js). contribution un j = []"
    by (auto simp: as_completed_def contribution_def)
  then have c: "concat (map (contribution un) (as_completed js)) = []"
    by simp
  show ?thesis
    unfolding fetch_all_releases_eq c by (simp add: sort_reverse_def)
qed

lemma fetch_repo_requests_cases:
  "fetch_repo_requests un j = [head_request j] \<or>
   fetch_repo_requests un j = [head_request j, parse_request j]"
  by (simp add: fetch_repo_requests_def fetch_repo_run_def fetch_repo_try_def
      split: sum.splits exn.splits option.splits list.splits)

text \<open>
  C1. For every list of repositories, whatever their answers and the order in which the
  fetches complete, \<^verbatim>\<open>fetch_all_releases\<close> returns a list sorted by \<^verbatim>\<open>updated\<close> in descending
  order that holds, up to order, exactly the contributions of the listed repositories: one
  item for a repository whose fetch delivered a latest release, none for a repository that
  failed or has no releases. The repositories of the items are those of the successful
  fetches.
\<close>

theorem fetch_all_releases_sorted_one_per_source:
  "sorted_wrt (\<lambda>a b. updated b \<le> updated a) (fetch_all_releases un js) \<and>
   mset (fetch_all_releases un js) = mset (concat (map (contribution un) js)) \<and>
   mset (map e_repo (fetch_all_releases un js))
     = mset (map repo (filter (\<lambda>j. released j \<noteq> None) js)) \<and>
   length (contribution un j) = (if released j = None then 0 else 1)"
proof -
  have "mset (map e_repo (fetch_all_releases un js))
          = mset (map e_repo (concat (map (contribution un) js)))"
    using mset_fetch_all_releases [of un js] by (metis mset_map)
  then have "mset (map e_repo (fetch_all_releases un js))
          = mset (map repo (filter (\<lambda>j. released j \<noteq> None) js))"
    by (simp only: map_e_repo_contribution)
  moreover have "sorted_wrt (\<lambda>a b. updated b \<le> updated a) (fetch_all_releases un js)"
    by (simp add: fetch_all_releases_eq sort_reverse_sorted)
  ultimately show ?thesis
    using mset_fetch_all_releases [of un js] length_contribution [of un j] by blast
qed

theorem fetch_all_releases_sorted_one_per_source_witness:
  "mset (map e_repo (fetch_all_releases (\<lambda>s. s) [example_job_ok, example_job_timeout]))
     = {#u ''a/x''#} \<and>
   length (contribution (\<lambda>s. s) example_job_ok) = 1 \<and>
   length (contribution (\<lambda>s. s) example_job_timeout) = 0"
proof -
  have r1: "released example_job_ok = Some example_entry"
    by (simp add: released_def example_job_ok_def)
  have r2: "released example_job_timeout = None"
    by (simp add: released_def example_job_timeout_def)
  have rp: "repo example_job_ok = u ''a/x''"
    by (simp add: example_job_ok_def)
  show ?thesis
    using fetch_all_releases_sorted_one_per_source
            [of "\<lambda>s. s" "[example_job_ok, example_job_timeout]" example_job_ok]
          fetch_all_releases_sorted_one_per_source
            [of "\<lambda>s. s" "[example_job_ok, example_job_timeout]" example_job_timeout]
    by (simp add: r1 r2 rp)
qed

text \<open>
  C6. A fetch that ends in a failure of kind NotFound, Unreachable, Malformed or Timeout
  raises nothing to its caller and returns the empty list, and the batch returns what it
  returns for the list of repositories without the failing ones: the failing repository
  adds no item and the other repositories are processed as usual.
\<close>

theorem failed_source_absent:
  "(fetch_failure j \<noteq> None \<longrightarrow> fetch_repo_releases un j = Inr []) \<and>
   fetch_all_releases un js
     = fetch_all_releases un (filter (\<lambda>j. fetch_failure j = None) js)"
proof -
  have "fetch_failure j \<noteq> None \<longrightarrow> fetch_repo_releases un j = Inr []"
    using failure_no_release [of j] by (auto simp: fetch_repo_releases_eq contribution_def)
  moreover have "as_completed (filter (\<lambda>j. fetch_failure j = None) js)
        = filter (\<lambda>j. fetch_failure j = None) (as_completed js)"
    by (simp add: as_completed_def filter_sort)
  ultimately show ?thesis
    by (simp add: fetch_all_releases_eq concat_filter_contribution)
qed

theorem failed_source_absent_witness:
  "fetch_failure example_job_timeout = Some TimedOut \<and>
   fetch_repo_releases (\<lambda>s. s) example_job_timeout = Inr [] \<and>
   fetch_all_releases (\<lambda>s. s) [example_job_ok, example_job_timeout]
     = fetch_all_releases (\<lambda>s. s) [example_job_ok]"
  using failed_source_absent
          [of example_job_timeout "\<lambda>s. s" "[example_job_ok, example_job_timeout]"]
  by (simp add: fetch_failure_def example_job_ok_def example_job_timeout_def kind_of_exn_def)

text \<open>
  C8. One call of \<^verbatim>\<open>fetch_repo_releases\<close> issues the existence check and at most one
  content fetch (lemma \<open>fetch_repo_requests_cases\<close>), but only the existence check carries
  the configured timeout: for repository \<^verbatim>\<open>a/x\<close>, which answers 200, the requests are the
  \<^verbatim>\<open>HEAD\<close> with \<^verbatim>\<open>REQUEST_TIMEOUT\<close> and the content fetch of \<^verbatim>\<open>feedparser.parse(url)\<close> with
  no timeout at all.
\<close>

theorem content_fetch_has_no_timeout:
  "fetch_repo_requests (\<lambda>s. s) example_job_ok
     = [head_request example_job_ok, parse_request example_job_ok] \<and>
   map rq_timeout (fetch_repo_requests (\<lambda>s. s) example_job_ok)
     = [Some REQUEST_TIMEOUT, None]"
  by (simp add: fetch_repo_requests_def fetch_repo_run_def fetch_repo_try_def
      example_job_ok_def head_request_def parse_request_def)

text \<open>
  C9. When the latest release of a repository has a non-empty summary, the item returned
  for it carries that summary HTML-unescaped and then, if the unescaped text is longer than
  500 characters, cut to its first 500 characters followed by \<^verbatim>\<open>...\<close>; an unescaped text of
  at most 500 characters is stored as it is.
\<close>

theorem summary_unescaped_truncated:
  assumes "released j = Some e" and "raw_summary e \<noteq> []"
  shows "\<exists>it. fetch_repo_releases un j = Inr [it] \<and>
           summary it = (if 500 < length (un (raw_summary e))
                         then take 500 (un (raw_summary e)) @ u ''...''
                         else un (raw_summary e))"
  using assms
  by (simp add: fetch_repo_releases_eq contribution_def make_entry_def summary_of_def Let_def)

theorem summary_unescaped_truncated_witness:
  "released example_job_ok = Some example_entry \<and> raw_summary example_entry \<noteq> [] \<and>
   (\<exists>it. fetch_repo_releases (\<lambda>s. s) example_job_ok = Inr [it] \<and>
      summary it = replicate 500 97 @ u ''...'')"
proof -
  have r: "released example_job_ok = Some example_entry"
    by (simp add: released_def example_job_ok_def)
  have t: "raw_summary example_entry = replicate 501 97"
    by (simp add: raw_summary_def dict_get_def example_entry_def)
  have s: "raw_summary example_entry \<noteq> []"
    by (simp add: t)
  show ?thesis
    using summary_unescaped_truncated [OF r s, of "\<lambda>s. s"] r s by (simp add: t)
qed

section \<open>The cache\<close>

lemma rebuild_fields:
  "cache_data (snd (rebuild w st)) = cache_data st"
  "cache_timestamp (snd (rebuild w st)) = cache_timestamp st"
  "settings (snd (rebuild w st)) = settings st"
  "fetch_calls (snd (rebuild w st)) = fetch_calls st + 1"
  by (simp_all add: rebuild_def Let_def)

lemma get_cached_data_hit:
  assumes "cache_data st = Some d"
    and "now - cache_timestamp st < real_of_int (cache_duration (settings st))"
  shows "get_cached_data w now st = (d, st)"
  using assms by (simp add: get_cached_data_def)

lemma get_cached_data_miss:
  assumes "\<not> cache_hit now st"
  shows "get_cached_data w now st =
           (fst (rebuild w st), store (fst (rebuild w st)) now (snd (rebuild w st)))"
  using assms
  by (auto simp: get_cached_data_def cache_hit_def split: option.splits prod.splits)

lemma get_many_hits:
  assumes "cache_data st = Some d"
    and "\<forall>(w, t) \<in> set calls. t - cache_timestamp st < real_of_int (cache_duration (settings st))"
  shows "get_many calls st = (replicate (length calls) d, st)"
  using assms by (induction calls) (auto simp: get_cached_data_hit)

text \<open>
  C3. \<^verbatim>\<open>get_cached_data\<close> leaves the number of calls of \<^verbatim>\<open>fetch_all_releases\<close> unchanged if
  and only if the cache holds a result and \<open>now - timestamp < cache_duration\<close>; in that case
  it returns the stored value and changes nothing. Hence any sequence of calls whose clock
  readings all lie within the cache duration of the stored timestamp returns the stored
  value each time and leaves the state, with its count of fetches, as it was.
\<close>

theorem get_cached_data_hit_iff:
  "(fetch_calls (snd (get_cached_data w now st)) = fetch_calls st) = cache_hit now st \<and>
   (cache_hit now st \<longrightarrow> get_cached_data w now st = (the (cache_data st), st)) \<and>
   (cache_data st \<noteq> None \<longrightarrow>
    (\<forall>(w', t) \<in> set calls.
        t - cache_timestamp st < real_of_int (cache_duration (settings st))) \<longrightarrow>
    get_many calls st = (replicate (length calls) (the (cache_data st)), st))"
proof -
  have a: "(fetch_calls (snd (get_cached_data w now st)) = fetch_calls st) = cache_hit now st"
  proof (cases "cache_hit now st")
    case True
    then show ?thesis by (auto simp: cache_hit_def get_cached_data_hit)
  next
    case False
    then show ?thesis by (simp add: get_cached_data_miss store_def rebuild_fields)
  qed
  have b: "cache_hit now st \<longrightarrow> get_cached_data w now st = (the (cache_data st), st)"
    by (auto simp: cache_hit_def get_cached_data_hit)
  have c: "cache_data st \<noteq> None \<longrightarrow>
    (\<forall>(w', t) \<in> set calls.
        t - cache_timestamp st < real_of_int (cache_duration (settings st))) \<longrightarrow>
    get_many calls st = (replicate (length calls) (the (cache_data st)), st)"
    using get_many_hits [of st _ calls] by auto
  from a b c show ?thesis by blast
qed

theorem get_cached_data_hit_iff_witness:
  "cache_hit 1003 cached_state \<and>
   get_cached_data example_world 1003 cached_state = ([], cached_state) \<and>
   get_many [(example_world, 1003), (example_world, 1299)] cached_state
     = ([[], []], cached_state) \<and>
   fetch_calls (snd (get_cached_data example_world 1300 cached_state)) \<noteq> 0"
proof -
  have f: "cache_data cached_state = Some []" "cache_timestamp cached_state = 1000"
    "cache_duration (settings cached_state) = 300" "fetch_calls cached_state = 0"
    by (simp_all add: cached_state_def store_def initial_state_def DEFAULT_CACHE_DURATION_def)
  have h: "cache_hit 1003 cached_state" "\<not> cache_hit 1300 cached_state"
    by (simp_all add: cache_hit_def f)
  have n: "cache_data cached_state \<noteq> None"
    by (simp add: f)
  have q: "\<forall>(w', t) \<in> set [(example_world, 1003), (example_world, 1299)].
             t - cache_timestamp cached_state
               < real_of_int (cache_duration (settings cached_state))"
    by (simp add: f)
  note t1 = get_cached_data_hit_iff
              [of example_world 1003 cached_state
                  "[(example_world, 1003), (example_world, 1299)]"]
  note t2 = get_cached_data_hit_iff [of example_world 1300 cached_state "[]"]
  have g1: "get_cached_data example_world 1003 cached_state
              = (the (cache_data cached_state), cached_state)"
    using t1 h(1) by blast
  have g2: "get_many [(example_world, 1003), (example_world, 1299)] cached_state
              = (replicate (length [(example_world, 1003), (example_world, 1299 :: real)])
                   (the (cache_data cached_state)), cached_state)"
    using t1 n q by blast
  have g3: "fetch_calls (snd (get_cached_data example_world 1300 cached_state))
              \<noteq> fetch_calls cached_state"
    using t2 h(2) by blast
  have r: "replicate (length [(example_world, 1003), (example_world, 1299 :: real)])
             (the (cache_data cached_state)) = [[], []]"
    by (simp add: f)
  show ?thesis
    using g1 g2 g3 h(1) unfolding r by (simp add: f del: get_many.simps)
qed

text \<open>
  C5. Provided the clock readings are positive (they are seconds since 1970), every
  operation on the cache keeps the invariant that the cached result is present exactly when
  the stored timestamp is positive: \<^verbatim>\<open>get_cached_data\<close> (hit or miss), the invalidation block,
  the state between invalidation and store, \<^verbatim>\<open>refresh\<close>, \<^verbatim>\<open>startup_cache_warmup\<close>, the
  auto-refresh tick alone and inside a worker's round, and \<^verbatim>\<open>save_settings_route\<close>.
\<close>

theorem cache_inv_preserved:
  assumes "cache_inv st" and "0 < now"
  shows "cache_inv (snd (get_cached_data w now st)) \<and>
         cache_inv (invalidate st) \<and>
         cache_inv (snd (rebuild w (invalidate st))) \<and>
         cache_inv (refresh w now st) \<and>
         cache_inv (startup_cache_warmup env w now st) \<and>
         cache_inv (auto_refresh_tick w now st) \<and>
         cache_inv (worker_wake w tid now st) \<and>
         cache_inv (snd (save_settings_route form saved w now st))"
proof -
  have 1: "cache_inv (snd (get_cached_data w now st))"
    using assms
    by (auto simp: cache_inv_def get_cached_data_def store_def rebuild_def Let_def
        split: option.splits)
  have 2: "cache_inv (invalidate st)" "cache_inv (snd (rebuild w (invalidate st)))"
    by (simp_all add: cache_inv_def invalidate_def rebuild_def Let_def)
  have 3: "cache_inv (refresh w now st)" "cache_inv (auto_refresh_tick w now st)"
    using assms(2)
    by (simp_all add: cache_inv_def refresh_def auto_refresh_tick_def invalidate_def store_def
        rebuild_def Let_def)
  have 4: "cache_inv (startup_cache_warmup env w now st)"
    using assms
    by (simp add: cache_inv_def startup_cache_warmup_def store_def rebuild_def Let_def)
  have 5: "cache_inv (worker_wake w tid now st)"
    using assms 3(2)
    by (auto simp: cache_inv_def worker_wake_def Let_def split: worker.splits)
  have 6: "cache_inv (snd (save_settings_route form saved w now st))"
    using assms
    by (simp add: cache_inv_def save_settings_route_def restart_auto_refresh_def
        start_auto_refresh_def invalidate_def store_def rebuild_def Let_def)
  from 1 2 3 4 5 6 show ?thesis by blast
qed

theorem cache_inv_preserved_witness:
  "cache_inv (initial_state :: entry_data list app_state) \<and> (0::real) < 1000 \<and>
   cache_inv (snd (get_cached_data example_world 1000 initial_state)) \<and>
   cache_inv (refresh example_world 1000 initial_state) \<and>
   cache_inv (worker_wake example_world 0 1000 initial_state)"
proof -
  have i: "cache_inv (initial_state :: entry_data list app_state)"
    by (simp add: cache_inv_def initial_state_def)
  have p: "(0::real) < 1000" by simp
  show ?thesis
    using cache_inv_preserved [OF i p, of example_world True 0] i by simp
qed

text \<open>
  C7. When the rebuild finds no repository, or no repository delivers a release, a call of
  \<^verbatim>\<open>get_cached_data\<close> that misses stores the feed of the empty list with the clock it read,
  and a later call within the cache duration of that reading returns this stored feed from
  the cache, leaving the state unchanged.
\<close>

theorem empty_result_cached:
  assumes "jobs w = [] \<or> (\<forall>j \<in> set (jobs w). released j = None)"
    and "\<not> cache_hit t0 st"
    and "t1 - t0 < real_of_int (cache_duration (settings st))"
  shows "\<exists>st'. get_cached_data w t0 st = (create_rss_feed w [], st') \<and>
           cache_data st' = Some (create_rss_feed w []) \<and> cache_timestamp st' = t0 \<and>
           cache_hit t1 st' \<and>
           get_cached_data w' t1 st' = (create_rss_feed w [], st')"
proof -
  have e: "fetch_all_releases (html_unescape w) (jobs w) = []"
    using assms(1) by (rule fetch_all_releases_empty)
  let ?st' = "store (create_rss_feed w []) t0 (snd (rebuild w st))"
  have r: "fst (rebuild w st) = create_rss_feed w []"
    by (simp add: rebuild_def e)
  have g: "get_cached_data w t0 st = (create_rss_feed w [], ?st')"
    using assms(2) by (simp add: get_cached_data_miss r)
  have d: "cache_data ?st' = Some (create_rss_feed w [])" "cache_timestamp ?st' = t0"
    "settings ?st' = settings st"
    by (simp_all add: store_def rebuild_fields)
  have h: "cache_hit t1 ?st'"
    using assms(3) d by (simp add: cache_hit_def)
  have "get_cached_data w' t1 ?st' = (create_rss_feed w [], ?st')"
    using assms(3) d by (simp add: get_cached_data_hit)
  with g d h show ?thesis by blast
qed

theorem empty_result_cached_witness:
  "jobs failing_world = [example_job_timeout] \<and> released example_job_timeout = None \<and>
   \<not> cache_hit 1000 (initial_state :: entry_data list app_state) \<and>
   (\<exists>st'. get_cached_data failing_world 1000 initial_state = ([], st') \<and>
      cache_data st' = Some [] \<and> cache_timestamp st' = 1000 \<and>
      get_cached_data example_world 1299 st' = ([], st'))"
proof -
  have a: "jobs failing_world = [] \<or> (\<forall>j \<in> set (jobs failing_world). released j = None)"
    by (simp add: failing_world_def released_def example_job_timeout_def)
  have b: "\<not> cache_hit 1000 (initial_state :: entry_data list app_state)"
    by (simp add: cache_hit_def initial_state_def)
  have c: "1299 - 1000
             < real_of_int (cache_duration (settings (initial_state :: entry_data list app_state)))"
    by (simp add: initial_state_def DEFAULT_CACHE_DURATION_def)
  have f: "create_rss_feed failing_world [] = []"
    by (simp add: failing_world_def)
  have j: "jobs failing_world = [example_job_timeout]"
    "released example_job_timeout = None"
    by (simp_all add: failing_world_def released_def example_job_timeout_def)
  show ?thesis
    using empty_result_cached [OF a b c, of example_world] b j by (auto simp: f)
qed

subsection \<open>Concurrent callers\<close>

lemma list_all_update: "list_all P xs \<Longrightarrow> P v \<Longrightarrow> list_all P (xs[i := v])"
  by (induction xs arbitrary: i) (auto split: nat.splits)

lemma served_acquire:
  assumes "served r t1 c"
    and "t - t1 < real_of_int (cache_duration (settings (app c)))"
    and "acquire i t c = Some c1"
  shows "served r t1 c1 \<and> app c1 = app c"
  using assms
  by (auto simp: served_def acquire_def list_all_update split: if_splits)

lemma served_complete:
  assumes "served r t1 c"
  shows "complete i w c = None"
proof (cases "i < length (callers c)")
  case True
  then have "callers c ! i \<in> set (callers c)" by simp
  with assms have "callers c ! i = Arrived \<or> callers c ! i = Returned r"
    by (simp add: served_def list_all_iff)
  with True show ?thesis by (auto simp: complete_def)
next
  case False
  then show ?thesis by (simp add: complete_def)
qed

lemma served_run:
  assumes "served r t1 c"
    and "list_all (\<lambda>t. t - t1 < real_of_int (cache_duration (settings (app c)))) (acquire_times evs)"
    and "run_callers evs c = Some c'"
  shows "served r t1 c' \<and> app c' = app c"
  using assms
proof (induction evs arbitrary: c)
  case Nil
  then show ?case by simp
next
  case (Cons ev evs)
  show ?case
  proof (cases ev)
    case (Acquire i t)
    with Cons.prems obtain c1 where a: "acquire i t c = Some c1" and r: "run_callers evs c1 = Some c'"
      by (auto split: option.splits)
    from Cons.prems(2) Acquire have "t - t1 < real_of_int (cache_duration (settings (app c)))"
      by simp
    from served_acquire [OF Cons.prems(1) this a] have s1: "served r t1 c1" and e: "app c1 = app c"
      by simp_all
    from Cons.prems(2) Acquire e have b: "list_all (\<lambda>t. t - t1 < real_of_int (cache_duration (settings (app c1)))) (acquire_times evs)"
      by simp
    from Cons.IH [OF s1 b r] e show ?thesis by simp
  next
    case (Complete i w)
    with Cons.prems(3) served_complete [OF Cons.prems(1), of i w] show ?thesis by simp
  qed
qed

lemma rebuilding_complete:
  assumes "rebuilding i t1 c" and "complete j w c = Some c1"
  shows "j = i \<and> served (fst (rebuild w (app c))) t1 c1 \<and>
         app c1 = store (fst (rebuild w (app c))) t1 (snd (rebuild w (app c)))"
proof -
  from assms(2) obtain t where j: "j < length (callers c)" "callers c ! j = Rebuilding t"
    by (auto simp: complete_def split: if_splits caller.splits)
  with assms(1) have ji: "j = i" by (auto simp: rebuilding_def)
  with assms j have t: "t = t1" by (simp add: rebuilding_def)
  from assms(1) have "list_all (\<lambda>cl. cl = Arrived \<or> cl = Returned (fst (rebuild w (app c))))
                        ((callers c)[i := Returned (fst (rebuild w (app c)))])"
    unfolding rebuilding_def list_all_length by (auto simp: nth_list_update)
  with assms(2) j ji t show ?thesis
    by (auto simp: complete_def served_def store_def split: prod.splits)
qed

lemma rebuilding_run:
  assumes "rebuilding i t1 c"
    and "list_all (\<lambda>t. t - t1 < real_of_int (cache_duration (settings (app c)))) (acquire_times evs)"
    and "run_callers evs c = Some c'"
  shows "c' = c \<or>
         (\<exists>w. served (fst (rebuild w (app c))) t1 c' \<and>
               app c' = store (fst (rebuild w (app c))) t1 (snd (rebuild w (app c))))"
proof (cases evs)
  case Nil
  with assms(3) show ?thesis by simp
next
  case (Cons ev rest)
  show ?thesis
  proof (cases ev)
    case (Acquire j t)
    from assms(1) have "acquire j t c = None"
      by (simp add: rebuilding_def acquire_def)
    with assms(3) Cons Acquire show ?thesis by simp
  next
    case (Complete j w)
    with assms(3) Cons obtain c1 where a: "complete j w c = Some c1"
      and r: "run_callers rest c1 = Some c'"
      by (auto split: option.splits)
    let ?r = "fst (rebuild w (app c))"
    from rebuilding_complete [OF assms(1) a]
    have s: "served ?r t1 c1" and e: "app c1 = store ?r t1 (snd (rebuild w (app c)))"
      by simp_all
    have se: "settings (app c1) = settings (app c)"
      by (simp add: e store_def rebuild_def Let_def)
    from assms(2) Cons Complete se
    have b: "list_all (\<lambda>t. t - t1 < real_of_int (cache_duration (settings (app c1)))) (acquire_times rest)"
      by simp
    from served_run [OF s b r] e show ?thesis by auto
  qed
qed


text \<open>
  The steps of one caller amount to one call of \<^verbatim>\<open>get_cached_data\<close>: taking the lock on a
  hit, or taking the lock on a miss and then completing.
\<close>

lemma caller_steps_get_cached_data:
  assumes "acquire i t c = Some c1"
  shows "(cache_hit t (app c) \<longrightarrow>
            app c1 = snd (get_cached_data w t (app c)) \<and>
            callers c1 ! i = Returned (fst (get_cached_data w t (app c))) \<and> \<not> lock_held c1) \<and>
         (\<not> cache_hit t (app c) \<longrightarrow>
            (\<exists>c2. complete i w c1 = Some c2 \<and>
               app c2 = snd (get_cached_data w t (app c)) \<and>
               callers c2 ! i = Returned (fst (get_cached_data w t (app c))) \<and> \<not> lock_held c2))"
  using assms
  by (auto simp: acquire_def complete_def cache_hit_def get_cached_data_def
      split: if_splits option.splits prod.splits)

lemma arrive_acquire:
  assumes "cache_data st = None" and "acquire i t1 (arrive n st) = Some c1"
  shows "rebuilding i t1 c1 \<and> app c1 = st \<and> length (callers c1) = n"
  using assms
  by (auto simp: acquire_def arrive_def rebuilding_def list_all_length nth_list_update
      split: if_splits)

text \<open>
  C2, as stated, fails. With the default cache duration of 300 seconds, two callers arrive
  on the invalidated cache. Caller 0 takes the lock, reads the clock at 1000 and rebuilds;
  the rebuild takes 301 seconds and the entry is stamped with 1000, the clock read before
  it. Caller 1, which waited for the lock, takes it at 1301, finds the entry expired and
  rebuilds again: two calls of \<^verbatim>\<open>fetch_all_releases\<close>, not one.
\<close>

theorem second_rebuild_after_slow_rebuild:
  "map_option (fetch_calls \<circ> app)
     (run_callers
        [Acquire 0 1000, Complete 0 example_world, Acquire 1 1301, Complete 1 example_world]
        (arrive 2 (invalidate initial_state))) = Some 2"
  by (simp add: acquire_def complete_def arrive_def invalidate_def initial_state_def rebuild_def
      store_def DEFAULT_CACHE_DURATION_def Let_def)

text \<open>
  C2, amended. Callers of \<^verbatim>\<open>get_cached_data\<close> arrive on an invalidated cache, and nothing
  else writes the cache or the settings meanwhile. In every run of theirs in which each
  caller after the first takes the lock less than \<^verbatim>\<open>cache_duration\<close> seconds after the
  clock reading \<open>t1\<close> of the first, there is never more than one call of
  \<^verbatim>\<open>fetch_all_releases\<close>, and once all callers have returned there was exactly one and all
  of them returned its result, which is the cached value.
\<close>

theorem single_flight_within_ttl:
  assumes "cache_data st = None"
    and "run_callers (Acquire i t1 # evs) (arrive n st) = Some c"
    and "list_all (\<lambda>t. t - t1 < real_of_int (cache_duration (settings st))) (acquire_times evs)"
  shows "fetch_calls (app c) \<le> fetch_calls st + 1 \<and>
         (list_all returned (callers c) \<longrightarrow>
            fetch_calls (app c) = fetch_calls st + 1 \<and>
            (\<exists>r. cache_data (app c) = Some r \<and>
                 list_all (\<lambda>cl. cl = Returned r) (callers c)))"
proof -
  from assms(2) obtain c1 where a: "acquire i t1 (arrive n st) = Some c1"
    and r: "run_callers evs c1 = Some c"
    by (auto split: option.splits)
  from arrive_acquire [OF assms(1) a] have rb: "rebuilding i t1 c1" and e: "app c1 = st"
    by simp_all
  from assms(3) e
  have b: "list_all (\<lambda>t. t - t1 < real_of_int (cache_duration (settings (app c1)))) (acquire_times evs)"
    by simp
  from rebuilding_run [OF rb b r] show ?thesis
  proof
    assume cc: "c = c1"
    from rb have il: "i < length (callers c1)" and ci: "callers c1 ! i = Rebuilding t1"
      by (simp_all add: rebuilding_def)
    from il have "callers c1 ! i \<in> set (callers c1)"
      by (rule nth_mem)
    with ci have m: "Rebuilding t1 \<in> set (callers c1)"
      by simp
    have nr: "\<not> returned (Rebuilding t1)"
      by (simp add: returned_def)
    from m nr have "\<not> list_all returned (callers c1)"
      unfolding list_all_iff by blast
    with cc e show ?thesis by simp
  next
    assume "\<exists>w. served (fst (rebuild w (app c1))) t1 c \<and>
               app c = store (fst (rebuild w (app c1))) t1 (snd (rebuild w (app c1)))"
    then obtain w where s: "served (fst (rebuild w st)) t1 c"
      and ac: "app c = store (fst (rebuild w st)) t1 (snd (rebuild w st))"
      using e by auto
    have f: "fetch_calls (app c) = fetch_calls st + 1"
      by (simp add: ac store_def rebuild_def Let_def)
    from s have l: "list_all (\<lambda>cl. cl = Arrived \<or> cl = Returned (fst (rebuild w st))) (callers c)"
      and d: "cache_data (app c) = Some (fst (rebuild w st))"
      by (simp_all add: served_def)
    have na: "\<not> returned Arrived"
      by (simp add: returned_def)
    have "list_all (\<lambda>cl. cl = Returned (fst (rebuild w st))) (callers c)"
      if all: "list_all returned (callers c)"
      unfolding list_all_iff
    proof
      fix cl assume m: "cl \<in> set (callers c)"
      with l have "cl = Arrived \<or> cl = Returned (fst (rebuild w st))"
        by (simp add: list_all_iff)
      moreover from all m have "returned cl"
        by (simp add: list_all_iff)
      ultimately show "cl = Returned (fst (rebuild w st))"
        using na by auto
    qed
    then have "list_all returned (callers c) \<longrightarrow>
        list_all (\<lambda>cl. cl = Returned (fst (rebuild w st))) (callers c)"
      by simp
    with f d show ?thesis by auto
  qed
qed

theorem single_flight_within_ttl_witness:
  "map_option (\<lambda>c. (fetch_calls (app c), callers c))
     (run_callers [Acquire 1 1000, Complete 1 failing_world, Acquire 0 1001, Acquire 2 1299]
        (arrive 3 (invalidate cached_state)))
   = Some (1, [Returned [], Returned [], Returned []])"
proof -
  let ?evs = "[Complete 1 failing_world, Acquire 0 1001, Acquire 2 1299]"
  let ?st = "invalidate cached_state"
  have a: "cache_data ?st = None"
    by (simp add: invalidate_def)
  have f: "cache_duration (settings ?st) = 300" "fetch_calls ?st = 0"
    by (simp_all add: invalidate_def cached_state_def store_def initial_state_def
        DEFAULT_CACHE_DURATION_def)
  have b: "list_all (\<lambda>t. t - 1000 < real_of_int (cache_duration (settings ?st)))
             (acquire_times ?evs)"
    by (simp add: f)
  have e: "fetch_all_releases (\<lambda>s. s) [example_job_timeout] = []"
    by (rule fetch_all_releases_empty) (simp add: released_def example_job_timeout_def)
  have "\<exists>c. run_callers (Acquire 1 1000 # ?evs) (arrive 3 ?st) = Some c \<and>
            callers c = [Returned [], Returned [], Returned []]"
    by (simp add: acquire_def complete_def arrive_def invalidate_def initial_state_def
        rebuild_def store_def DEFAULT_CACHE_DURATION_def Let_def cached_state_def
        failing_world_def e numeral_3_eq_3)
  then obtain c where r: "run_callers (Acquire 1 1000 # ?evs) (arrive 3 ?st) = Some c"
    and cl: "callers c = [Returned [], Returned [], Returned []]"
    by blast
  from single_flight_within_ttl [OF a r b] cl have "fetch_calls (app c) = 1"
    by (simp add: returned_def f)
  with r cl show ?thesis by simp
qed

section \<open>The auto-refresh scheduler\<close>

text \<open>
  A worker that wakes while the flag is cleared rebuilds nothing and leaves its loop: this
  is how \<^verbatim>\<open>stop_auto_refresh\<close> ends the thread.
\<close>

lemma stopped_worker_exits:
  assumes "tid < length (workers st)" and "workers st ! tid = Sleeping t" and "t \<le> now"
    and "\<not> auto_refresh_running st"
  shows "worker_wake w tid now st = st\<lparr>workers := (workers st)[tid := Exited]\<rparr>"
  using assms by (simp add: worker_wake_def next_wait_def)

lemma run_started_eq:
  "workers run_started = [Sleeping 1800] \<and> refresh_thread run_started = Some 0 \<and>
   auto_refresh_running run_started \<and> fetch_calls run_started = 0 \<and>
   auto_refresh_interval (settings run_started) = 1800"
  by (simp add: run_started_def main_def startup_cache_warmup_def worker_begin_def
      start_auto_refresh_def initial_state_def next_wait_def
      DEFAULT_AUTO_REFRESH_INTERVAL_def)

lemma run_restarted_eq:
  "workers run_restarted = [Sleeping 1800, Sleeping 611] \<and>
   refresh_thread run_restarted = Some 1 \<and>
   auto_refresh_running run_restarted \<and> fetch_calls run_restarted = 1 \<and>
   auto_refresh_interval (settings run_restarted) = 600"
  using run_started_eq
  by (simp add: run_restarted_def save_settings_route_def restart_auto_refresh_def Let_def
      start_auto_refresh_def worker_begin_def next_wait_def rebuild_def invalidate_def
      store_def split: prod.splits)

lemma run_before_stale_tick_eq:
  "workers run_before_stale_tick = [Sleeping 1800, Sleeping 1811] \<and>
   refresh_thread run_before_stale_tick = Some 1 \<and>
   auto_refresh_running run_before_stale_tick \<and> fetch_calls run_before_stale_tick = 3 \<and>
   auto_refresh_interval (settings run_before_stale_tick) = 600 \<and>
   cache_timestamp run_before_stale_tick = 1211"
  using run_restarted_eq
  by (simp add: run_before_stale_tick_def Let_def worker_wake_def auto_refresh_tick_def
      next_wait_def rebuild_def invalidate_def store_def split: prod.splits)

text \<open>
  C4 does not hold of the code. After the restart at time 10 the current thread is thread
  1, and thread 0, of the superseded scheduler, is still asleep until 1800. When it wakes
  it finds the flag set again (by thread 1), rebuilds the cache (one more call of
  \<^verbatim>\<open>fetch_all_releases\<close>, the cache timestamp moves from 1211 to 1800) and goes back to
  sleep until 2400 instead of leaving its loop.
\<close>

theorem stale_worker_rebuilds_after_restart:
  "refresh_thread run_before_stale_tick = Some 1 \<and>
   workers run_before_stale_tick ! 0 = Sleeping 1800 \<and>
   fetch_calls run_before_stale_tick = 3 \<and>
   cache_timestamp run_before_stale_tick = 1211 \<and>
   fetch_calls run_after_stale_tick = 4 \<and>
   cache_timestamp run_after_stale_tick = 1800 \<and>
   workers run_after_stale_tick ! 0 = Sleeping 2400"
  using run_before_stale_tick_eq
  by (simp add: run_after_stale_tick_def Let_def worker_wake_def auto_refresh_tick_def
      next_wait_def rebuild_def invalidate_def store_def split: prod.splits)

text \<open>
  C10. \<^verbatim>\<open>stop_auto_refresh\<close> clears the running flag and leaves every other part of the
  state as it was: the cached result and its timestamp, the settings, the thread handle,
  the threads and the count of fetches.
\<close>

theorem stop_auto_refresh_frame:
  "stop_auto_refresh st = st\<lparr>auto_refresh_running := False\<rparr> \<and>
   cache_data (stop_auto_refresh st) = cache_data st \<and>
   cache_timestamp (stop_auto_refresh st) = cache_timestamp st \<and>
   settings (stop_auto_refresh st) = settings st \<and>
   refresh_thread (stop_auto_refresh st) = refresh_thread st \<and>
   workers (stop_auto_refresh st) = workers st \<and>
   fetch_calls (stop_auto_refresh st) = fetch_calls st \<and>
   app_state.more (stop_auto_refresh st) = app_state.more st \<and>
   auto_refresh_running (stop_auto_refresh st) = False"
  by (simp add: stop_auto_refresh_def)

end
